theory Spec2Isabelle
  imports Main
begin

section \<open>MilkCheck: the Action of the execution engine\<close>

text \<open>
  A shallow embedding of \<^verbatim>\<open>lib/MilkCheck/Engine/Action.py\<close>: the class \<^verbatim>\<open>Action\<close> and
  the two event handlers \<^verbatim>\<open>MilkCheckEventHandler\<close> and \<^verbatim>\<open>ActionEventHandler\<close>.

  An Action is a record. A method that mutates the Action takes the record and returns
  the new one. Every call that leaves the module (the callback bus, the action manager,
  the parent service, the \<^verbatim>\<open>prepare\<close> of another entity) is recorded as an event, in
  the order in which the calls are made; the called code is not part of this module, is
  not executed here, and is taken not to write the Action that makes the call. An
  \<^verbatim>\<open>assert\<close> that fails is the result \<open>Inl (AssertionError msg)\<close>: the exception leaves
  the method. The readings of \<^verbatim>\<open>datetime.now()\<close> are arguments of the methods that read
  the clock; a time is a number of clock ticks.
\<close>

subsection \<open>Statuses, dependencies, entities\<close>

datatype status =
  NO_STATUS | WAITING_STATUS | DONE | SKIPPED | WARNING | ERROR | TIMEOUT | DEP_ERROR | MISSING

datatype strength = REQUIRE | REQUIRE_WEAK | CHECK

text \<open>
  Modelled from the spec: the classes of \<^verbatim>\<open>BaseEntity.py\<close> are not in the sources. A
  dependency edge has a strength and a remote entity (\<^verbatim>\<open>dep.target\<close>), of which the
  Action reads the name, the \<^verbatim>\<open>status\<close>, and the answer of \<^verbatim>\<open>is_ready()\<close> at the moment
  when the Action asks.
\<close>

record remote =
  rname :: string
  rstatus :: status
  ris_ready :: bool

record dependency =
  target :: remote
  dep_type :: strength

text \<open>
  Modelled from the spec: the attributes of \<^verbatim>\<open>BaseEntity\<close> that the Action module reads
  or writes. \<open>nodes\<close> is the attribute \<^verbatim>\<open>target\<close>, a node set or \<open>None\<close>. The dictionaries
  \<^verbatim>\<open>parents\<close> and \<^verbatim>\<open>children\<close> are the lists of their values, in the order in which
  \<^verbatim>\<open>values()\<close> iterates them. \<^verbatim>\<open>errors\<close> is the tolerance on failed nodes.
\<close>

record BaseEntity =
  name :: string
  nodes :: "string set option"
  errors :: int
  simulate :: bool
  status :: status
  parents :: "dependency list"
  children :: "dependency list"

subsection \<open>Workers\<close>

text \<open>
  The result of a run, as ClusterShell hands it over: a \<^verbatim>\<open>WorkerPopen\<close> (one local
  process) answers \<^verbatim>\<open>retcode()\<close> (\<open>None\<close> after a timeout) and \<^verbatim>\<open>did_timeout()\<close>; any
  other worker answers \<^verbatim>\<open>iter_retcodes()\<close>, pairs of a return code and the node set
  that produced it, and \<^verbatim>\<open>iter_keys_timeout()\<close>, the nodes that timed out. \<^verbatim>\<open>len\<close> of
  a node set is its cardinality. The attribute \<^verbatim>\<open>worker\<close> of an Action is \<open>None\<close> or a
  worker, and a worker is true in a test.
\<close>

datatype worker =
    WorkerPopen (retcode: "int option") (did_timeout: bool)
  | WorkerNodes (iter_retcodes: "(int \<times> string set) list") (iter_keys_timeout: "string list")

type_synonym time = int

record Action = BaseEntity +
  parent :: BaseEntity
  timeout :: int
  delay :: int
  priv_retry :: int
  priv_retry_backup :: int
  command :: "string option"
  worker :: "worker option"
  start_time :: "time option"
  stop_time :: "time option"

datatype error = AssertionError string

subsection \<open>Calls that leave the module\<close>

datatype callback = EV_STARTED | EV_COMPLETE | EV_STATUS_CHANGED | EV_TRIGGER_DEP

datatype subject = Entity string | Edge string string

datatype event =
    Notify subject callback
  | Perform_action string
  | Perform_delayed_action string
  | Remove_task string
  | Parent_update_status status
  | Prepare_call string

subsection \<open>The methods of BaseEntity that the Action calls\<close>

text \<open>
  Modelled from the spec: \<^verbatim>\<open>BaseEntity.eval_deps_status\<close> is not in the sources. The
  spec reduces the parent dependencies to one status: WAITING_STATUS if any parent is
  WAITING_STATUS; else DEP_ERROR if any REQUIRE parent is ERROR, TIMEOUT or DEP_ERROR;
  else DONE if every parent is DONE, SKIPPED or WARNING; else NO_STATUS.
\<close>

definition eval_deps_status :: "'a BaseEntity_scheme \<Rightarrow> status" where
  "eval_deps_status e =
     (if list_ex (\<lambda>d. rstatus (target d) = WAITING_STATUS) (parents e) then WAITING_STATUS
      else if list_ex (\<lambda>d. dep_type d = REQUIRE \<and>
                rstatus (target d) \<in> {ERROR, TIMEOUT, DEP_ERROR}) (parents e) then DEP_ERROR
      else if list_all (\<lambda>d. rstatus (target d) \<in> {DONE, SKIPPED, WARNING}) (parents e) then DONE
      else NO_STATUS)"

text \<open>
  Modelled from the spec: \<^verbatim>\<open>BaseEntity.search_deps\<close> is not in the sources. The spec
  returns the parent edges whose remote endpoint has a status in the given collection.
\<close>

definition search_deps :: "status list \<Rightarrow> 'a BaseEntity_scheme \<Rightarrow> dependency list" where
  "search_deps symbols e = filter (\<lambda>d. rstatus (target d) \<in> set symbols) (parents e)"

text \<open>
  Modelled from the spec: \<^verbatim>\<open>BaseEntity.skipped\<close> is not in the sources. The spec makes
  it true iff the target of the entity is empty; an entity without a target (it runs
  locally) has no empty node set.
\<close>

definition skipped :: "'a BaseEntity_scheme \<Rightarrow> bool" where
  "skipped e = (case nodes e of None \<Rightarrow> False | Some ns \<Rightarrow> ns = {})"

text \<open>
  Modelled from the spec: \<^verbatim>\<open>BaseEntity.reset\<close> is not in the sources. The spec resets
  the status to NO_STATUS.
\<close>

definition BaseEntity_reset :: "'a BaseEntity_scheme \<Rightarrow> 'a BaseEntity_scheme" where
  "BaseEntity_reset e = e\<lparr>status := NO_STATUS\<rparr>"

subsection \<open>Action\<close>

text \<open>
  \<^verbatim>\<open>Action.__init__\<close>. Modelled from the spec: the constructor of \<^verbatim>\<open>BaseEntity\<close> and
  \<^verbatim>\<open>Service.add_action\<close> are not in the sources. By the spec an entity is constructed
  empty (no status, no dependency, no tolerance), and an Action is bound to one parent
  service, which is given here at construction.
\<close>

definition init_Action ::
  "BaseEntity \<Rightarrow> string \<Rightarrow> string set option \<Rightarrow> string option \<Rightarrow> int \<Rightarrow> int \<Rightarrow> Action" where
  "init_Action svc nm tgt cmd tmo dly =
     \<lparr>name = nm, nodes = tgt, errors = 0, simulate = False, status = NO_STATUS,
      parents = [], children = [],
      parent = svc, timeout = tmo, delay = dly, priv_retry = 0, priv_retry_backup = - 1,
      command = cmd, worker = None, start_time = None, stop_time = None\<rparr>"

definition reset :: "Action \<Rightarrow> Action" where
  "reset a =
     (let a1 = BaseEntity_reset a;
          a2 = a1\<lparr>start_time := None\<rparr>;
          a3 = a2\<lparr>stop_time := None\<rparr>;
          a4 = a3\<lparr>worker := None\<rparr>
      in a4\<lparr>priv_retry := priv_retry_backup a4\<rparr>)"

text \<open>\<^verbatim>\<open>nb_timeout\<close>: the number of timeouts of the last run.\<close>

definition nb_timeout :: "Action \<Rightarrow> int" where
  "nb_timeout a =
     (case worker a of
        None \<Rightarrow> 0
      | Some (WorkerPopen rc tmo) \<Rightarrow> (if tmo then 1 else 0)
      | Some (WorkerNodes rcs keys) \<Rightarrow> int (length keys))"

text \<open>The loop of \<^verbatim>\<open>nb_errors\<close> over \<^verbatim>\<open>iter_retcodes()\<close>, with its counter.\<close>

fun count_errors :: "(int \<times> string set) list \<Rightarrow> int \<Rightarrow> int" where
  "count_errors [] error_count = error_count"
| "count_errors ((rc, nds) # rest) error_count =
     count_errors rest (if rc \<noteq> 0 then error_count + int (card nds) else error_count)"

definition nb_errors :: "Action \<Rightarrow> int" where
  "nb_errors a =
     (case worker a of
        None \<Rightarrow> 0
      | Some (WorkerPopen rc tmo) \<Rightarrow> (if rc \<noteq> None \<and> rc \<noteq> Some 0 then 1 else 0)
      | Some (WorkerNodes rcs keys) \<Rightarrow> count_errors rcs 0)"

text \<open>The property \<^verbatim>\<open>retry\<close>: \<^verbatim>\<open>get_retry\<close> reads it, \<^verbatim>\<open>set_retry\<close> assigns it.\<close>

definition get_retry :: "Action \<Rightarrow> int" where
  "get_retry a = priv_retry a"

definition set_retry :: "int \<Rightarrow> Action \<Rightarrow> error + Action" where
  "set_retry retry a =
     (if \<not> delay a > 0 then Inl (AssertionError ''No way to specify retry without a delay'')
      else if \<not> retry \<ge> 0 then Inl (AssertionError ''No way to specify a negative retry'')
      else
        (let a1 = a\<lparr>priv_retry := retry\<rparr>
         in if priv_retry_backup a1 = - 1 then Inr (a1\<lparr>priv_retry_backup := retry\<rparr>)
            else Inr a1))"

text \<open>\<^verbatim>\<open>schedule\<close>; \<open>now\<close> is what \<^verbatim>\<open>datetime.now()\<close> returns if it is called.\<close>

definition schedule :: "bool \<Rightarrow> time \<Rightarrow> Action \<Rightarrow> event list \<times> Action" where
  "schedule allow_delay now a =
     (let a1 = (if start_time a = None then a\<lparr>start_time := Some now\<rparr> else a)
      in if delay a1 > 0 \<and> allow_delay then ([Perform_delayed_action (name a1)], a1)
         else ([Perform_action (name a1)], a1))"

text \<open>
  The loop of \<^verbatim>\<open>update_status\<close> over the children: a child that answers \<^verbatim>\<open>is_ready()\<close>
  is prepared, and announced first unless the parent service simulates.
\<close>

fun trigger_children :: "Action \<Rightarrow> dependency list \<Rightarrow> event list" where
  "trigger_children a [] = []"
| "trigger_children a (dep # deps) =
     (if ris_ready (target dep) then
        (if \<not> simulate (parent a)
         then [Notify (Edge (name a) (rname (target dep))) EV_TRIGGER_DEP] else [])
        @ [Prepare_call (rname (target dep))]
      else [])
     @ trigger_children a deps"

definition update_status :: "status \<Rightarrow> Action \<Rightarrow> error + event list \<times> Action" where
  "update_status st a =
     (if st \<notin> {NO_STATUS, WAITING_STATUS, DONE, SKIPPED, ERROR, TIMEOUT}
      then Inl (AssertionError ''Bad action status'')
      else
        (let a1 = a\<lparr>status := st\<rparr>;
             ev1 = [Notify (Entity (name a1)) EV_STATUS_CHANGED]
         in if st \<notin> {NO_STATUS, WAITING_STATUS} then
              (let ev2 = (if \<not> simulate (parent a1)
                          then [Notify (Entity (name a1)) EV_COMPLETE] else [])
               in if children a1 \<noteq> []
                  then Inr (ev1 @ ev2 @ trigger_children a1 (children a1), a1)
                  else Inr (ev1 @ ev2 @ [Parent_update_status (status a1)], a1))
            else Inr (ev1, a1)))"

text \<open>\<^verbatim>\<open>prepare\<close>; \<open>now\<close> is the clock reading for the call of \<^verbatim>\<open>schedule\<close>.\<close>

definition prepare :: "time \<Rightarrow> Action \<Rightarrow> error + event list \<times> Action" where
  "prepare now a =
     (let deps_status = eval_deps_status a
      in if status a = NO_STATUS \<and> deps_status \<noteq> WAITING_STATUS then
           (if skipped a then update_status SKIPPED a
            else if deps_status = DEP_ERROR \<or> parents a = [] then
              (case update_status WAITING_STATUS a of
                 Inl e \<Rightarrow> Inl e
               | Inr (ev1, a1) \<Rightarrow>
                   (case schedule True now a1 of (ev2, a2) \<Rightarrow> Inr (ev1 @ ev2, a2)))
            else if deps_status = DONE then update_status DONE a
            else Inr (map (\<lambda>dep. Prepare_call (rname (target dep)))
                        (search_deps [NO_STATUS] a), a))
         else Inr ([], a))"

subsection \<open>The event handlers\<close>

definition ev_start :: "Action \<Rightarrow> event list" where
  "ev_start a =
     (if \<not> simulate (parent a) then [Notify (Entity (name a)) EV_STARTED] else [])"

definition ev_timer :: "time \<Rightarrow> Action \<Rightarrow> event list \<times> Action" where
  "ev_timer now a =
     (if simulate (parent a)
      then ([Parent_update_status (eval_deps_status (parent a))], a)
      else schedule False now a)"

text \<open>
  \<^verbatim>\<open>ev_close\<close>; \<open>now\<close> is the clock reading that becomes the stop time, \<open>now'\<close> the one
  for the call of \<^verbatim>\<open>schedule\<close> of a retry. The statement \<^verbatim>\<open>retry -= 1\<close> reads the
  property and assigns it through \<^verbatim>\<open>set_retry\<close>.
\<close>

definition ev_close :: "worker \<Rightarrow> time \<Rightarrow> time \<Rightarrow> Action \<Rightarrow> error + event list \<times> Action" where
  "ev_close w now now' a =
     (let a1 = a\<lparr>stop_time := Some now\<rparr>;
          ev1 = [Remove_task (name a1)];
          a2 = a1\<lparr>worker := Some w\<rparr>;
          errs = nb_errors a2;
          timeouts = nb_timeout a2
      in if (errs \<noteq> 0 \<or> timeouts \<noteq> 0) \<and> get_retry a2 > 0 then
           (case set_retry (get_retry a2 - 1) a2 of
              Inl e \<Rightarrow> Inl e
            | Inr a3 \<Rightarrow> (case schedule True now' a3 of (ev2, a4) \<Rightarrow> Inr (ev1 @ ev2, a4)))
         else if timeouts > errors a2 \<and> errs = 0 then
           (case update_status TIMEOUT a2 of
              Inl e \<Rightarrow> Inl e | Inr (ev2, a3) \<Rightarrow> Inr (ev1 @ ev2, a3))
         else if errs + timeouts > errors a2 then
           (case update_status ERROR a2 of
              Inl e \<Rightarrow> Inl e | Inr (ev2, a3) \<Rightarrow> Inr (ev1 @ ev2, a3))
         else
           (case update_status DONE a2 of
              Inl e \<Rightarrow> Inl e | Inr (ev2, a3) \<Rightarrow> Inr (ev1 @ ev2, a3)))"

subsection \<open>The nodes that failed\<close>

text \<open>The nodes that a multi-node worker reports under a return code other than 0.\<close>

definition failed_nodes :: "(int \<times> string set) list \<Rightarrow> string set" where
  "failed_nodes rcs = {n. \<exists>rc nds. (rc, nds) \<in> set rcs \<and> rc \<noteq> 0 \<and> n \<in> nds}"

subsection \<open>The life of a scheduled Action\<close>

text \<open>
  Modelled from the spec: the action manager and the event loop are not in the sources.
  By the spec, \<^verbatim>\<open>perform_delayed_action\<close> arms a one-shot timer, whose fire the loop
  delivers to \<^verbatim>\<open>ev_timer\<close>; \<^verbatim>\<open>perform_action\<close> hands the Action to a worker, whose end
  the loop delivers to \<^verbatim>\<open>ev_close\<close>; \<^verbatim>\<open>remove_task\<close> takes the Action out of the running
  set. \<open>manager\<close> follows the calls the manager receives, in order.
\<close>

datatype phase = Idle | Timer_armed | Dispatched

fun manager :: "event list \<Rightarrow> phase \<Rightarrow> phase" where
  "manager [] p = p"
| "manager (Perform_delayed_action n # es) p = manager es Timer_armed"
| "manager (Perform_action n # es) p = manager es Dispatched"
| "manager (Remove_task n # es) p = manager es Idle"
| "manager (e # es) p = manager es p"

text \<open>
  The callbacks of the event loop, each with the clock readings its handler takes. A
  callback that the loop cannot deliver in the current phase (a timer that is not armed,
  the end of a worker that was not started) changes nothing. An assertion that fails in
  a handler ends the run.
\<close>

datatype loop_event = Timer_fired time | Worker_closed worker time time

fun readings :: "loop_event \<Rightarrow> time list" where
  "readings (Timer_fired t) = [t]"
| "readings (Worker_closed w t t') = [t, t']"

fun deliver :: "loop_event \<Rightarrow> phase \<times> Action \<Rightarrow> error + phase \<times> Action" where
  "deliver (Timer_fired t) (Timer_armed, a) =
     (case ev_timer t a of (es, a') \<Rightarrow> Inr (manager es Idle, a'))"
| "deliver (Worker_closed w t t') (Dispatched, a) =
     (case ev_close w t t' a of
        Inl e \<Rightarrow> Inl e
      | Inr (es, a') \<Rightarrow> Inr (manager es Dispatched, a'))"
| "deliver c (p, a) = Inr (p, a)"

fun run_loop :: "loop_event list \<Rightarrow> phase \<times> Action \<Rightarrow> error + phase \<times> Action" where
  "run_loop [] s = Inr s"
| "run_loop (c # cs) s =
     (case deliver c s of Inl e \<Rightarrow> Inl e | Inr s' \<Rightarrow> run_loop cs s')"

text \<open>A run: the first call of \<^verbatim>\<open>schedule()\<close> at time \<open>t0\<close>, then the callbacks.\<close>

definition run_action :: "time \<Rightarrow> loop_event list \<Rightarrow> Action \<Rightarrow> error + phase \<times> Action" where
  "run_action t0 cs a =
     (case schedule True t0 a of (es, a') \<Rightarrow> run_loop cs (manager es Idle, a'))"

text \<open>
  The invariant of a run that started at \<open>t0\<close>: the start time is \<open>t0\<close>, a positive retry
  has a positive delay, and a stop time is not before \<open>t0\<close>.
\<close>

definition started :: "time \<Rightarrow> Action \<Rightarrow> bool" where
  "started t0 a \<longleftrightarrow>
     start_time a = Some t0 \<and> (0 < get_retry a \<longrightarrow> 0 < delay a) \<and>
     (case stop_time a of None \<Rightarrow> True | Some t \<Rightarrow> t0 \<le> t)"

subsection \<open>Histories of an Action\<close>

text \<open>
  The calls that can reach the retry counter, its backup or the delay: the assignments
  \<^verbatim>\<open>a.retry = r\<close> and \<^verbatim>\<open>a.delay = d\<close>, \<^verbatim>\<open>a.reset()\<close>, the end of a worker (which
  decrements the counter on a retry) and \<^verbatim>\<open>a.schedule()\<close>. An assignment of the retry
  that fails raises before it writes and leaves the Action as it was; an \<^verbatim>\<open>ev_close\<close>
  that fails has written the stop time and the worker before it raises.
\<close>

datatype call =
    Assign_retry int
  | Assign_delay int
  | Reset
  | Close worker time time
  | Schedule bool time

fun apply_call :: "call \<Rightarrow> Action \<Rightarrow> Action" where
  "apply_call (Assign_retry r) a = (case set_retry r a of Inl e \<Rightarrow> a | Inr a' \<Rightarrow> a')"
| "apply_call (Assign_delay d) a = a\<lparr>delay := d\<rparr>"
| "apply_call Reset a = reset a"
| "apply_call (Close w t t') a =
     (case ev_close w t t' a of
        Inl e \<Rightarrow> a\<lparr>stop_time := Some t, worker := Some w\<rparr>
      | Inr (es, a') \<Rightarrow> a')"
| "apply_call (Schedule b t) a = snd (schedule b t a)"

fun run_calls :: "call list \<Rightarrow> Action \<Rightarrow> Action" where
  "run_calls [] a = a"
| "run_calls (c # cs) a = run_calls cs (apply_call c a)"

text \<open>The value of the first assignment \<^verbatim>\<open>a.retry = r\<close> of a history that succeeds.\<close>

fun first_assigned :: "call list \<Rightarrow> Action \<Rightarrow> int option" where
  "first_assigned [] a = None"
| "first_assigned (Assign_retry r # cs) a =
     (case set_retry r a of
        Inl e \<Rightarrow> first_assigned cs a
      | Inr a' \<Rightarrow> Some r)"
| "first_assigned (c # cs) a = first_assigned cs (apply_call c a)"

text \<open>An Action to which no retry was assigned: the backup is -1, the retry not positive.\<close>

definition unassigned :: "Action \<Rightarrow> bool" where
  "unassigned a \<longleftrightarrow> priv_retry_backup a = - 1 \<and> priv_retry a \<le> 0"

subsection \<open>How the end of a worker settles\<close>

text \<open>
  \<^verbatim>\<open>ev_close\<close> ends with the status \<open>st\<close>: after \<^verbatim>\<open>remove_task\<close> its only other
  call is \<^verbatim>\<open>update_status(st)\<close>, on the Action with the stop time and the worker stored.
\<close>

definition ends_with :: "status \<Rightarrow> worker \<Rightarrow> time \<Rightarrow> time \<Rightarrow> Action \<Rightarrow> bool" where
  "ends_with st w t t' a =
     (case update_status st (a\<lparr>stop_time := Some t, worker := Some w\<rparr>) of
        Inl e \<Rightarrow> False
      | Inr (es, a') \<Rightarrow>
          status a' = st \<and> ev_close w t t' a = Inr (Remove_task (name a) # es, a'))"

subsection \<open>Sample entities\<close>

definition demo_service :: BaseEntity where
  "demo_service =
     \<lparr>name = ''svc'', nodes = None, errors = 0, simulate = False, status = NO_STATUS,
      parents = [], children = []\<rparr>"

definition ghost_service :: BaseEntity where
  "ghost_service = demo_service\<lparr>simulate := True\<rparr>"

definition demo_action :: Action where
  "demo_action = init_Action demo_service ''start'' None (Some ''/bin/false'') (- 1) 1"

definition ghost_action :: Action where
  "ghost_action = init_Action ghost_service ''start'' None (Some ''/bin/false'') (- 1) 1"

definition demo_child :: "bool \<Rightarrow> string \<Rightarrow> dependency" where
  "demo_child ready nm =
     \<lparr>target = \<lparr>rname = nm, rstatus = NO_STATUS, ris_ready = ready\<rparr>, dep_type = REQUIRE\<rparr>"

definition demo_parent :: "strength \<Rightarrow> status \<Rightarrow> dependency" where
  "demo_parent sg st =
     \<lparr>target = \<lparr>rname = ''p'', rstatus = st, ris_ready = False\<rparr>, dep_type = sg\<rparr>"

definition demo_rcs :: "(int \<times> string set) list" where
  "demo_rcs = [(0, {''n1''}), (1, {''n2'', ''n3''}), (2, {''n4''})]"

definition demo_run :: "loop_event list" where
  "demo_run =
     [Timer_fired 1, Worker_closed (WorkerPopen (Some 1) False) 2 2,
      Timer_fired 3, Worker_closed (WorkerPopen (Some 1) False) 4 4,
      Timer_fired 5, Worker_closed (WorkerPopen (Some 1) False) 6 6]"

definition demo_calls :: "call list" where
  "demo_calls =
     [Assign_retry 5, Assign_retry 3, Schedule True 0,
      Close (WorkerPopen (Some 1) False) 1 1]"

section \<open>Properties\<close>

subsection \<open>Counting errors\<close>

lemma count_errors_acc: "count_errors rcs n = n + count_errors rcs 0"
proof (induction rcs arbitrary: n)
  case Nil
  show ?case by simp
next
  case (Cons p rcs)
  obtain rc nds where p: "p = (rc, nds)" by (cases p)
  show ?case
    using Cons.IH [of "n + int (card nds)"] Cons.IH [of "int (card nds)"] Cons.IH [of n]
    by (simp add: p)
qed

lemma count_errors_sum:
  "count_errors rcs 0 = (\<Sum>(rc, nds) \<leftarrow> filter (\<lambda>(rc, nds). rc \<noteq> 0) rcs. int (card nds))"
proof (induction rcs)
  case Nil
  show ?case by simp
next
  case (Cons p rcs)
  obtain rc nds where p: "p = (rc, nds)" by (cases p)
  show ?case
    using Cons.IH count_errors_acc [of rcs "int (card nds)"] by (simp add: p)
qed

lemma count_errors_nonneg: "0 \<le> count_errors rcs 0"
proof (induction rcs)
  case Nil
  show ?case by simp
next
  case (Cons p rcs)
  obtain rc nds where p: "p = (rc, nds)" by (cases p)
  show ?case
    using Cons.IH count_errors_acc [of rcs "int (card nds)"] by (simp add: p)
qed


lemma failed_nodes_Cons:
  "failed_nodes ((rc, nds) # rcs) = (if rc \<noteq> 0 then nds else {}) \<union> failed_nodes rcs"
  by (auto simp: failed_nodes_def)

lemma finite_failed_nodes:
  "\<forall>p \<in> set rcs. finite (snd p) \<Longrightarrow> finite (failed_nodes rcs)"
proof (induction rcs)
  case Nil
  show ?case by (simp add: failed_nodes_def)
next
  case (Cons p rcs)
  obtain rc nds where p: "p = (rc, nds)" by (cases p)
  from Cons show ?case by (simp add: p failed_nodes_Cons)
qed

lemma count_errors_card:
  assumes "distinct (map fst rcs)"
    and "\<forall>p \<in> set rcs. finite (snd p)"
    and "\<forall>p \<in> set rcs. \<forall>q \<in> set rcs. fst p \<noteq> fst q \<longrightarrow> snd p \<inter> snd q = {}"
  shows "count_errors rcs 0 = int (card (failed_nodes rcs))"
  using assms
proof (induction rcs)
  case Nil
  show ?case by (simp add: failed_nodes_def)
next
  case (Cons p rcs)
  obtain rc nds where p: "p = (rc, nds)" by (cases p)
  have ih: "count_errors rcs 0 = int (card (failed_nodes rcs))"
    using Cons by simp
  have fin: "finite nds" "finite (failed_nodes rcs)"
    using Cons.prems finite_failed_nodes [of rcs] by (simp_all add: p)
  have disj: "nds \<inter> failed_nodes rcs = {}"
  proof -
    have "\<And>rc' nds'. (rc', nds') \<in> set rcs \<Longrightarrow> nds \<inter> nds' = {}"
    proof -
      fix rc' nds' assume m: "(rc', nds') \<in> set rcs"
      then have "rc' \<noteq> rc" using Cons.prems(1) by (force simp: p)
      then show "nds \<inter> nds' = {}" using Cons.prems(3) m by (force simp: p)
    qed
    then show ?thesis by (fastforce simp: failed_nodes_def)
  qed
  show ?case
    using count_errors_acc [of rcs "int (card nds)"] ih fin disj
    by (simp add: p failed_nodes_Cons card_Un_disjoint)
qed


text \<open>
  Claim C2. \<^verbatim>\<open>nb_errors\<close> is 0 for an Action without a worker; for a \<^verbatim>\<open>WorkerPopen\<close> it
  is 1 exactly when the return code is neither \<open>None\<close> nor 0, and 0 otherwise; for a
  multi-node worker it is the sum, over the return codes other than 0, of the sizes of
  their node sets, which is the number of nodes that failed when every return code is
  listed once with a finite node set and no node stands under two codes. \<^verbatim>\<open>nb_timeout\<close>
  is 0 without a worker, 1 for a \<^verbatim>\<open>WorkerPopen\<close> exactly when \<^verbatim>\<open>did_timeout()\<close> holds
  (0 otherwise), and the length of the timeout list for a multi-node worker.
\<close>

theorem nb_errors_nb_timeout_count:
  "(worker a = None \<longrightarrow> nb_errors a = 0 \<and> nb_timeout a = 0) \<and>
   (worker a = Some (WorkerPopen rc tmo) \<longrightarrow>
      (nb_errors a = 1 \<longleftrightarrow> rc \<noteq> None \<and> rc \<noteq> Some 0) \<and>
      (nb_errors a = 0 \<longleftrightarrow> rc = None \<or> rc = Some 0) \<and>
      (nb_timeout a = 1 \<longleftrightarrow> tmo) \<and> (nb_timeout a = 0 \<longleftrightarrow> \<not> tmo)) \<and>
   (worker a = Some (WorkerNodes rcs keys) \<longrightarrow>
      nb_errors a = (\<Sum>(rc, nds) \<leftarrow> filter (\<lambda>(rc, nds). rc \<noteq> 0) rcs. int (card nds)) \<and>
      nb_timeout a = int (length keys) \<and>
      (distinct (map fst rcs) \<and> (\<forall>p \<in> set rcs. finite (snd p)) \<and>
       (\<forall>p \<in> set rcs. \<forall>q \<in> set rcs. fst p \<noteq> fst q \<longrightarrow> snd p \<inter> snd q = {})
       \<longrightarrow> nb_errors a = int (card (failed_nodes rcs))))"
proof (intro conjI impI)
  assume "worker a = None"
  then show "nb_errors a = 0" "nb_timeout a = 0"
    by (simp_all add: nb_errors_def nb_timeout_def)
next
  assume w: "worker a = Some (WorkerPopen rc tmo)"
  then show "nb_errors a = 1 \<longleftrightarrow> rc \<noteq> None \<and> rc \<noteq> Some 0"
    and "nb_errors a = 0 \<longleftrightarrow> rc = None \<or> rc = Some 0"
    by (auto simp: nb_errors_def)
  from w show "nb_timeout a = 1 \<longleftrightarrow> tmo" and "nb_timeout a = 0 \<longleftrightarrow> \<not> tmo"
    by (simp_all add: nb_timeout_def)
next
  assume w: "worker a = Some (WorkerNodes rcs keys)"
  then show "nb_errors a = (\<Sum>(rc, nds) \<leftarrow> filter (\<lambda>(rc, nds). rc \<noteq> 0) rcs. int (card nds))"
    by (simp add: nb_errors_def count_errors_sum)
  from w show "nb_timeout a = int (length keys)"
    by (simp add: nb_timeout_def)
  assume "distinct (map fst rcs) \<and> (\<forall>p \<in> set rcs. finite (snd p)) \<and>
       (\<forall>p \<in> set rcs. \<forall>q \<in> set rcs. fst p \<noteq> fst q \<longrightarrow> snd p \<inter> snd q = {})"
  then have "count_errors rcs 0 = int (card (failed_nodes rcs))"
    using count_errors_card [of rcs] by blast
  with w show "nb_errors a = int (card (failed_nodes rcs))"
    by (simp add: nb_errors_def)
qed

theorem nb_errors_nb_timeout_count_witness:
  "nb_errors (demo_action\<lparr>worker := None\<rparr>) = 0 \<and>
   nb_timeout (demo_action\<lparr>worker := None\<rparr>) = 0 \<and>
   nb_errors (demo_action\<lparr>worker := Some (WorkerPopen (Some 2) False)\<rparr>) = 1 \<and>
   nb_timeout (demo_action\<lparr>worker := Some (WorkerPopen None True)\<rparr>) = 1 \<and>
   nb_errors (demo_action\<lparr>worker := Some (WorkerNodes demo_rcs [''n5''])\<rparr>) = 3 \<and>
   nb_timeout (demo_action\<lparr>worker := Some (WorkerNodes demo_rcs [''n5''])\<rparr>) = 1 \<and>
   int (card (failed_nodes demo_rcs)) = 3"
  using nb_errors_nb_timeout_count [of "demo_action\<lparr>worker := None\<rparr>"]
    nb_errors_nb_timeout_count [of "demo_action\<lparr>worker := Some (WorkerPopen (Some 2) False)\<rparr>"
      "Some 2" False]
    nb_errors_nb_timeout_count [of "demo_action\<lparr>worker := Some (WorkerPopen None True)\<rparr>"
      None True]
    nb_errors_nb_timeout_count [of "demo_action\<lparr>worker := Some (WorkerNodes demo_rcs [''n5''])\<rparr>"
      _ _ demo_rcs "[''n5'']"]
  by (simp add: demo_rcs_def)

subsection \<open>Assigning the retry\<close>

text \<open>
  Claim C3. Assigning a positive retry to an Action whose delay is not positive fails
  with the assertion on the delay; assigning a negative retry fails with an assertion
  (the one on the delay when it also fails, since it is tested first); with a positive
  delay and a retry that is not negative the assignment succeeds: it stores the retry,
  and the backup when the backup is still -1. The failure is not caught: the decrement
  in \<^verbatim>\<open>ev_close\<close> hands the same assertion failure to its caller.
\<close>

theorem set_retry_assertions:
  "(0 < retry \<and> \<not> 0 < delay a \<longrightarrow>
      set_retry retry a = Inl (AssertionError ''No way to specify retry without a delay'')) \<and>
   (retry < 0 \<longrightarrow>
      set_retry retry a =
        Inl (AssertionError (if 0 < delay a then ''No way to specify a negative retry''
                             else ''No way to specify retry without a delay''))) \<and>
   (0 < delay a \<and> 0 \<le> retry \<longrightarrow>
      set_retry retry a =
        Inr (a\<lparr>priv_retry := retry,
              priv_retry_backup :=
                (if priv_retry_backup a = - 1 then retry else priv_retry_backup a)\<rparr>)) \<and>
   (0 < get_retry a \<and> \<not> 0 < delay a \<and>
    (nb_errors (a\<lparr>worker := Some w\<rparr>) \<noteq> 0 \<or> nb_timeout (a\<lparr>worker := Some w\<rparr>) \<noteq> 0) \<longrightarrow>
      ev_close w t t' a = Inl (AssertionError ''No way to specify retry without a delay''))"
  by (simp add: set_retry_def Let_def ev_close_def get_retry_def nb_errors_def nb_timeout_def)

theorem set_retry_assertions_witness:
  "set_retry 2 (demo_action\<lparr>delay := 0\<rparr>) =
     Inl (AssertionError ''No way to specify retry without a delay'') \<and>
   set_retry (- 1) demo_action = Inl (AssertionError ''No way to specify a negative retry'') \<and>
   set_retry 2 demo_action = Inr (demo_action\<lparr>priv_retry := 2, priv_retry_backup := 2\<rparr>) \<and>
   ev_close (WorkerPopen (Some 1) False) 5 6 (demo_action\<lparr>delay := 0, priv_retry := 2\<rparr>) =
     Inl (AssertionError ''No way to specify retry without a delay'')"
  using set_retry_assertions [of 2 "demo_action\<lparr>delay := 0\<rparr>"]
    set_retry_assertions [of "- 1" demo_action]
    set_retry_assertions [of 2 demo_action]
    set_retry_assertions [of 1 "demo_action\<lparr>delay := 0, priv_retry := 2\<rparr>"
      "WorkerPopen (Some 1) False" 5 6]
  by (simp add: demo_action_def init_Action_def set_retry_def get_retry_def nb_errors_def)

subsection \<open>The end of a worker\<close>

lemma nb_errors_nonneg: "0 \<le> nb_errors a"
  by (simp add: nb_errors_def count_errors_nonneg split: option.split worker.split)

lemma nb_timeout_nonneg: "0 \<le> nb_timeout a"
  by (simp add: nb_timeout_def split: option.split worker.split)

lemma nb_errors_frame:
  "nb_errors (a\<lparr>stop_time := x, worker := y\<rparr>) = nb_errors (a\<lparr>worker := y\<rparr>)"
  by (simp add: nb_errors_def)

lemma nb_timeout_frame:
  "nb_timeout (a\<lparr>stop_time := x, worker := y\<rparr>) = nb_timeout (a\<lparr>worker := y\<rparr>)"
  by (simp add: nb_timeout_def)

lemma update_status_accepted:
  "st \<in> {NO_STATUS, WAITING_STATUS, DONE, SKIPPED, ERROR, TIMEOUT} \<Longrightarrow>
   \<exists>es. update_status st a = Inr (es, a\<lparr>status := st\<rparr>)"
  by (simp add: update_status_def Let_def)

lemma ends_with_intro:
  assumes acc: "st \<in> {DONE, ERROR, TIMEOUT}"
    and run: "\<And>es a'. update_status st (a\<lparr>stop_time := Some t, worker := Some w\<rparr>) = Inr (es, a')
      \<Longrightarrow> ev_close w t t' a = Inr (Remove_task (name a) # es, a')"
  shows "ends_with st w t t' a"
proof -
  from acc have "st \<in> {NO_STATUS, WAITING_STATUS, DONE, SKIPPED, ERROR, TIMEOUT}" by auto
  from update_status_accepted [OF this, of "a\<lparr>stop_time := Some t, worker := Some w\<rparr>"]
  obtain es where es: "update_status st (a\<lparr>stop_time := Some t, worker := Some w\<rparr>) =
      Inr (es, a\<lparr>stop_time := Some t, worker := Some w, status := st\<rparr>)"
    by auto
  from run [OF es] es show ?thesis by (simp add: ends_with_def)
qed

text \<open>
  Claim C1. On an Action that keeps the invariant of the data model (a positive retry
  needs a positive delay), \<^verbatim>\<open>ev_close\<close> counts the errors and the timeouts of the worker
  and decides in this order: with an error or a timeout and a positive retry, the retry
  is decremented by one and the Action is scheduled again (after \<^verbatim>\<open>remove_task\<close> the only
  call is the one of the delayed action; the status is not touched and nothing is
  notified); otherwise, with more timeouts than the tolerance and no error, it ends with
  TIMEOUT; otherwise, with more errors and timeouts together than the tolerance, it ends
  with ERROR; otherwise it ends with DONE.
\<close>

theorem ev_close_decision_table:
  fixes a :: Action and w :: worker and t t' :: time
  defines "errs \<equiv> nb_errors (a\<lparr>worker := Some w\<rparr>)"
  defines "timeouts \<equiv> nb_timeout (a\<lparr>worker := Some w\<rparr>)"
  defines "again \<equiv> (0 < errs \<or> 0 < timeouts) \<and> 0 < get_retry a"
  assumes inv: "0 < get_retry a \<longrightarrow> 0 < delay a"
  shows "(again \<longrightarrow>
            (\<exists>a'. ev_close w t t' a =
                    Inr ([Remove_task (name a), Perform_delayed_action (name a)], a') \<and>
                  get_retry a' = get_retry a - 1 \<and> status a' = status a)) \<and>
         (\<not> again \<and> errors a < timeouts \<and> errs = 0 \<longrightarrow> ends_with TIMEOUT w t t' a) \<and>
         (\<not> again \<and> \<not> (errors a < timeouts \<and> errs = 0) \<and> errors a < errs + timeouts \<longrightarrow>
            ends_with ERROR w t t' a) \<and>
         (\<not> again \<and> \<not> (errors a < timeouts \<and> errs = 0) \<and> \<not> errors a < errs + timeouts \<longrightarrow>
            ends_with DONE w t t' a)"
proof -
  have e0: "0 \<le> errs" and t0: "0 \<le> timeouts"
    by (simp_all add: errs_def timeouts_def nb_errors_nonneg nb_timeout_nonneg)
  have again_code: "again \<longleftrightarrow> (errs \<noteq> 0 \<or> timeouts \<noteq> 0) \<and> 0 < get_retry a"
    using e0 t0 by (auto simp: again_def)
  have r1: "\<exists>a'. ev_close w t t' a =
                    Inr ([Remove_task (name a), Perform_delayed_action (name a)], a') \<and>
                  get_retry a' = get_retry a - 1 \<and> status a' = status a" if c: again
  proof -
    from c inv have d: "0 < delay a" by (simp add: again_def)
    from c have nz: "(errs \<noteq> 0 \<or> timeouts \<noteq> 0) \<and> 0 < get_retry a" by (simp add: again_code)
    show ?thesis
      using d nz
      by (auto simp: ev_close_def Let_def nb_errors_frame nb_timeout_frame errs_def timeouts_def
          set_retry_def get_retry_def schedule_def)
  qed
  have r2: "ends_with TIMEOUT w t t' a" if "\<not> again" "errors a < timeouts \<and> errs = 0"
    using that unfolding again_code
    by (intro ends_with_intro)
      (auto simp: ev_close_def Let_def nb_errors_frame nb_timeout_frame errs_def timeouts_def
         get_retry_def)
  have r3: "ends_with ERROR w t t' a"
    if "\<not> again" "\<not> (errors a < timeouts \<and> errs = 0)" "errors a < errs + timeouts"
    using that unfolding again_code
    by (intro ends_with_intro)
      (auto simp: ev_close_def Let_def nb_errors_frame nb_timeout_frame errs_def timeouts_def
         get_retry_def)
  have r4: "ends_with DONE w t t' a"
    if "\<not> again" "\<not> (errors a < timeouts \<and> errs = 0)" "\<not> errors a < errs + timeouts"
    using that unfolding again_code
    by (intro ends_with_intro)
      (auto simp: ev_close_def Let_def nb_errors_frame nb_timeout_frame errs_def timeouts_def
         get_retry_def)
  from r1 r2 r3 r4 show ?thesis by blast
qed


theorem ev_close_decision_table_witness:
  "(\<exists>a'. ev_close (WorkerPopen (Some 1) False) 5 6 (demo_action\<lparr>priv_retry := 2, priv_retry_backup := 2\<rparr>) =
          Inr ([Remove_task ''start'', Perform_delayed_action ''start''], a') \<and>
        get_retry a' = 1 \<and> status a' = NO_STATUS) \<and>
   ends_with TIMEOUT (WorkerPopen None True) 5 6 demo_action \<and>
   ends_with ERROR (WorkerNodes demo_rcs [''n5'']) 5 6 (demo_action\<lparr>errors := 3\<rparr>) \<and>
   ends_with DONE (WorkerNodes demo_rcs []) 5 6 (demo_action\<lparr>errors := 3\<rparr>)"
  using ev_close_decision_table [of "demo_action\<lparr>priv_retry := 2, priv_retry_backup := 2\<rparr>" "WorkerPopen (Some 1) False" 5 6]
    ev_close_decision_table [of demo_action "WorkerPopen None True" 5 6]
    ev_close_decision_table [of "demo_action\<lparr>errors := 3\<rparr>" "WorkerNodes demo_rcs [''n5'']" 5 6]
    ev_close_decision_table [of "demo_action\<lparr>errors := 3\<rparr>" "WorkerNodes demo_rcs []" 5 6]
  by (simp add: demo_action_def init_Action_def get_retry_def nb_errors_def nb_timeout_def
      demo_rcs_def)

subsection \<open>Notifications and simulate mode\<close>

lemma parent_status_update [simp]: "parent (a\<lparr>status := s\<rparr>) = parent a"
  by (cases a) simp

lemma trigger_children_simulate:
  "simulate (parent a) \<Longrightarrow>
   trigger_children a deps =
     map (\<lambda>dep. Prepare_call (rname (target dep))) (filter (\<lambda>dep. ris_ready (target dep)) deps)"
  by (induction deps) simp_all

lemma trigger_children_announce:
  "\<not> simulate (parent a) \<Longrightarrow>
   trigger_children a deps =
     concat (map (\<lambda>dep. [Notify (Edge (name a) (rname (target dep))) EV_TRIGGER_DEP,
                          Prepare_call (rname (target dep))])
               (filter (\<lambda>dep. ris_ready (target dep)) deps))"
  by (induction deps) simp_all

lemma trigger_children_quiet:
  "Notify x EV_COMPLETE \<notin> set (trigger_children a deps) \<and>
   Notify x EV_STARTED \<notin> set (trigger_children a deps)"
  by (induction deps) simp_all

lemma update_status_quiet:
  assumes "simulate (parent a)" and "update_status st a = Inr (es, a')"
  shows "Notify x EV_COMPLETE \<notin> set es \<and> Notify x EV_STARTED \<notin> set es"
  using assms trigger_children_quiet [of x "a\<lparr>status := st\<rparr>" "children a"]
  by (auto simp: update_status_def Let_def split: if_splits)

text \<open>
  Claim C5. When the parent service simulates, \<^verbatim>\<open>ev_start\<close> notifies nothing
  and no call of \<^verbatim>\<open>update_status\<close> that returns has notified EV_COMPLETE or EV_STARTED;
  when it does not simulate, \<^verbatim>\<open>ev_start\<close> notifies EV_STARTED. In both modes every call
  of \<^verbatim>\<open>update_status\<close> that returns has set the status and notified EV_STATUS_CHANGED
  first, and a call returns when its assertion accepts the status (NO_STATUS,
  WAITING_STATUS, DONE, SKIPPED, ERROR, TIMEOUT);
  without simulate, an accepted status other than NO_STATUS and WAITING_STATUS notifies
  EV_COMPLETE next. A call with any other status is the programmer error that the
  assertion signals: it returns no event and no Action.
\<close>

theorem simulate_suppresses_started_complete:
  "(simulate (parent a) \<longrightarrow>
      ev_start a = [] \<and>
      (\<forall>s es a' x. update_status s a = Inr (es, a') \<longrightarrow>
         Notify x EV_COMPLETE \<notin> set es \<and> Notify x EV_STARTED \<notin> set es)) \<and>
   (\<not> simulate (parent a) \<longrightarrow> ev_start a = [Notify (Entity (name a)) EV_STARTED]) \<and>
   (\<forall>s es a'. update_status s a = Inr (es, a') \<longrightarrow>
      (\<exists>es'. es = Notify (Entity (name a)) EV_STATUS_CHANGED # es') \<and> status a' = s) \<and>
   (st \<in> {NO_STATUS, WAITING_STATUS, DONE, SKIPPED, ERROR, TIMEOUT} \<longrightarrow>
      (\<exists>es. update_status st a =
         Inr (Notify (Entity (name a)) EV_STATUS_CHANGED # es, a\<lparr>status := st\<rparr>))) \<and>
   (\<not> simulate (parent a) \<and> st \<in> {DONE, SKIPPED, ERROR, TIMEOUT} \<longrightarrow>
      (\<exists>es. update_status st a =
         Inr (Notify (Entity (name a)) EV_STATUS_CHANGED #
              Notify (Entity (name a)) EV_COMPLETE # es, a\<lparr>status := st\<rparr>))) \<and>
   (st \<notin> {NO_STATUS, WAITING_STATUS, DONE, SKIPPED, ERROR, TIMEOUT} \<longrightarrow>
      update_status st a = Inl (AssertionError ''Bad action status''))"
proof (intro conjI impI allI)
  assume "simulate (parent a)"
  then show "ev_start a = []" by (simp add: ev_start_def)
next
  fix s es a' x
  assume "simulate (parent a)" "update_status s a = Inr (es, a')"
  then show "Notify x EV_COMPLETE \<notin> set es" "Notify x EV_STARTED \<notin> set es"
    using update_status_quiet by blast+
next
  assume "\<not> simulate (parent a)"
  then show "ev_start a = [Notify (Entity (name a)) EV_STARTED]" by (simp add: ev_start_def)
next
  fix s es a'
  assume r: "update_status s a = Inr (es, a')"
  then have acc: "s \<in> {NO_STATUS, WAITING_STATUS, DONE, SKIPPED, ERROR, TIMEOUT}"
    by (simp add: update_status_def split: if_splits)
  have "\<exists>es'. update_status s a =
      Inr (Notify (Entity (name a)) EV_STATUS_CHANGED # es', a\<lparr>status := s\<rparr>)"
    using acc by (auto simp: update_status_def Let_def)
  with r show "\<exists>es'. es = Notify (Entity (name a)) EV_STATUS_CHANGED # es'" and "status a' = s"
    by auto
next
  assume "st \<in> {NO_STATUS, WAITING_STATUS, DONE, SKIPPED, ERROR, TIMEOUT}"
  then show "\<exists>es. update_status st a =
         Inr (Notify (Entity (name a)) EV_STATUS_CHANGED # es, a\<lparr>status := st\<rparr>)"
    by (auto simp: update_status_def Let_def)
next
  assume "\<not> simulate (parent a) \<and> st \<in> {DONE, SKIPPED, ERROR, TIMEOUT}"
  then show "\<exists>es. update_status st a =
         Inr (Notify (Entity (name a)) EV_STATUS_CHANGED #
              Notify (Entity (name a)) EV_COMPLETE # es, a\<lparr>status := st\<rparr>)"
    by (auto simp: update_status_def Let_def)
next
  assume "st \<notin> {NO_STATUS, WAITING_STATUS, DONE, SKIPPED, ERROR, TIMEOUT}"
  then show "update_status st a = Inl (AssertionError ''Bad action status'')"
    by (simp add: update_status_def)
qed

theorem simulate_suppresses_started_complete_witness:
  "ev_start ghost_action = [] \<and>
   ev_start demo_action = [Notify (Entity ''start'') EV_STARTED] \<and>
   update_status DONE ghost_action =
     Inr ([Notify (Entity ''start'') EV_STATUS_CHANGED, Parent_update_status DONE],
          ghost_action\<lparr>status := DONE\<rparr>) \<and>
   Notify (Entity ''start'') EV_COMPLETE \<notin>
     set [Notify (Entity ''start'') EV_STATUS_CHANGED, Parent_update_status DONE] \<and>
   (\<exists>es. update_status DONE demo_action =
      Inr (Notify (Entity ''start'') EV_STATUS_CHANGED #
           Notify (Entity ''start'') EV_COMPLETE # es, demo_action\<lparr>status := DONE\<rparr>)) \<and>
   update_status MISSING demo_action = Inl (AssertionError ''Bad action status'')"
  using simulate_suppresses_started_complete [of ghost_action DONE]
    simulate_suppresses_started_complete [of demo_action DONE]
    simulate_suppresses_started_complete [of demo_action MISSING]
  by (simp add: ghost_action_def ghost_service_def demo_action_def demo_service_def
      init_Action_def update_status_def)

text \<open>
  Claim C10. For a terminal status that \<^verbatim>\<open>update_status\<close> accepts (DONE, SKIPPED, ERROR,
  TIMEOUT): when the parent service simulates and the Action has children, the calls
  are the notification of EV_STATUS_CHANGED and then \<^verbatim>\<open>prepare()\<close> of each child that
  answers \<^verbatim>\<open>is_ready()\<close>, in order, with no EV_TRIGGER_DEP (and no EV_COMPLETE); when
  the Action has no children the status is handed to \<^verbatim>\<open>update_status\<close> of the parent
  service instead. Without simulate each such child is announced by EV_TRIGGER_DEP
  before it is prepared.
\<close>

theorem update_status_terminal_children:
  assumes "st \<in> {DONE, SKIPPED, ERROR, TIMEOUT}"
  shows "(simulate (parent a) \<and> children a \<noteq> [] \<longrightarrow>
            update_status st a =
              Inr (Notify (Entity (name a)) EV_STATUS_CHANGED #
                   map (\<lambda>dep. Prepare_call (rname (target dep)))
                     (filter (\<lambda>dep. ris_ready (target dep)) (children a)),
                   a\<lparr>status := st\<rparr>)) \<and>
         (simulate (parent a) \<and> children a = [] \<longrightarrow>
            update_status st a =
              Inr ([Notify (Entity (name a)) EV_STATUS_CHANGED, Parent_update_status st],
                   a\<lparr>status := st\<rparr>)) \<and>
         (\<not> simulate (parent a) \<and> children a \<noteq> [] \<longrightarrow>
            update_status st a =
              Inr (Notify (Entity (name a)) EV_STATUS_CHANGED #
                   Notify (Entity (name a)) EV_COMPLETE #
                   concat (map (\<lambda>dep. [Notify (Edge (name a) (rname (target dep))) EV_TRIGGER_DEP,
                                        Prepare_call (rname (target dep))])
                     (filter (\<lambda>dep. ris_ready (target dep)) (children a))),
                   a\<lparr>status := st\<rparr>)) \<and>
         (\<not> simulate (parent a) \<and> children a = [] \<longrightarrow>
            update_status st a =
              Inr ([Notify (Entity (name a)) EV_STATUS_CHANGED,
                    Notify (Entity (name a)) EV_COMPLETE, Parent_update_status st],
                   a\<lparr>status := st\<rparr>))"
proof -
  have fin: "st \<notin> {NO_STATUS, WAITING_STATUS}"
    and acc: "st \<in> {NO_STATUS, WAITING_STATUS, DONE, SKIPPED, ERROR, TIMEOUT}"
    using assms by auto
  have sim: "trigger_children (a\<lparr>status := st\<rparr>) (children a) =
      map (\<lambda>dep. Prepare_call (rname (target dep)))
        (filter (\<lambda>dep. ris_ready (target dep)) (children a))" if "simulate (parent a)"
    using that trigger_children_simulate [of "a\<lparr>status := st\<rparr>" "children a"] by simp
  have ann: "trigger_children (a\<lparr>status := st\<rparr>) (children a) =
      concat (map (\<lambda>dep. [Notify (Edge (name a) (rname (target dep))) EV_TRIGGER_DEP,
                           Prepare_call (rname (target dep))])
        (filter (\<lambda>dep. ris_ready (target dep)) (children a)))" if "\<not> simulate (parent a)"
    using that trigger_children_announce [of "a\<lparr>status := st\<rparr>" "children a"] by simp
  show ?thesis
    using fin acc sim ann by (simp add: update_status_def Let_def)
qed

theorem update_status_terminal_children_witness:
  "update_status DONE (ghost_action\<lparr>children := [demo_child True ''b'', demo_child False ''c'',
       demo_child True ''d'']\<rparr>) =
     Inr ([Notify (Entity ''start'') EV_STATUS_CHANGED, Prepare_call ''b'', Prepare_call ''d''],
          ghost_action\<lparr>children := [demo_child True ''b'', demo_child False ''c'',
            demo_child True ''d''], status := DONE\<rparr>) \<and>
   update_status ERROR ghost_action =
     Inr ([Notify (Entity ''start'') EV_STATUS_CHANGED, Parent_update_status ERROR],
          ghost_action\<lparr>status := ERROR\<rparr>) \<and>
   update_status DONE (demo_action\<lparr>children := [demo_child True ''b'', demo_child False ''c'']\<rparr>) =
     Inr ([Notify (Entity ''start'') EV_STATUS_CHANGED, Notify (Entity ''start'') EV_COMPLETE,
           Notify (Edge ''start'' ''b'') EV_TRIGGER_DEP, Prepare_call ''b''],
          demo_action\<lparr>children := [demo_child True ''b'', demo_child False ''c''],
            status := DONE\<rparr>)"
  using update_status_terminal_children [of DONE
      "ghost_action\<lparr>children := [demo_child True ''b'', demo_child False ''c'',
         demo_child True ''d'']\<rparr>"]
    update_status_terminal_children [of ERROR ghost_action]
    update_status_terminal_children [of DONE
      "demo_action\<lparr>children := [demo_child True ''b'', demo_child False ''c'']\<rparr>"]
  by (simp add: ghost_action_def ghost_service_def demo_action_def demo_service_def
      init_Action_def demo_child_def)

subsection \<open>Preparing and scheduling\<close>

lemma trigger_children_no_perform:
  "Perform_action n \<notin> set (trigger_children a deps) \<and>
   Perform_delayed_action n \<notin> set (trigger_children a deps)"
  by (induction deps) simp_all

lemma update_status_no_perform:
  assumes "update_status st a = Inr (es, a')"
  shows "Perform_action n \<notin> set es \<and> Perform_delayed_action n \<notin> set es"
  using assms trigger_children_no_perform [of n "a\<lparr>status := st\<rparr>" "children a"]
  by (auto simp: update_status_def Let_def split: if_splits)

lemma schedule_eq:
  "schedule allow_delay now a =
     ([if 0 < delay a \<and> allow_delay then Perform_delayed_action (name a)
       else Perform_action (name a)],
      a\<lparr>start_time := (case start_time a of None \<Rightarrow> Some now | Some t \<Rightarrow> Some t)\<rparr>)"
proof (cases "start_time a")
  case None
  then show ?thesis by (simp add: schedule_def Let_def)
next
  case (Some t)
  have "a\<lparr>start_time := start_time a\<rparr> = a" by simp
  then have "a\<lparr>start_time := Some t\<rparr> = a" unfolding Some .
  with Some show ?thesis by (simp add: schedule_def Let_def)
qed

lemma update_status_waiting:
  "update_status WAITING_STATUS a =
     Inr ([Notify (Entity (name a)) EV_STATUS_CHANGED], a\<lparr>status := WAITING_STATUS\<rparr>)"
  by (simp add: update_status_def Let_def)

lemma prepare_skipped:
  "status a = NO_STATUS \<Longrightarrow> eval_deps_status a \<noteq> WAITING_STATUS \<Longrightarrow> skipped a \<Longrightarrow>
   prepare now a = update_status SKIPPED a"
  by (simp add: prepare_def Let_def)

lemma prepare_schedule:
  "status a = NO_STATUS \<Longrightarrow> eval_deps_status a \<noteq> WAITING_STATUS \<Longrightarrow> \<not> skipped a \<Longrightarrow>
   eval_deps_status a = DEP_ERROR \<or> parents a = [] \<Longrightarrow>
   prepare now a =
     Inr ([Notify (Entity (name a)) EV_STATUS_CHANGED,
           if 0 < delay a then Perform_delayed_action (name a) else Perform_action (name a)],
          a\<lparr>status := WAITING_STATUS,
            start_time := (case start_time a of None \<Rightarrow> Some now | Some t \<Rightarrow> Some t)\<rparr>)"
  by (simp add: prepare_def Let_def update_status_waiting schedule_eq)

lemma prepare_done:
  "status a = NO_STATUS \<Longrightarrow> eval_deps_status a = DONE \<Longrightarrow> \<not> skipped a \<Longrightarrow>
   parents a \<noteq> [] \<Longrightarrow> prepare now a = update_status DONE a"
  by (simp add: prepare_def Let_def)

text \<open>
  Claim C6. On an Action whose status is not NO_STATUS, or whose dependencies evaluate
  to WAITING_STATUS, \<^verbatim>\<open>prepare\<close> makes no call and returns the Action as it was. So a
  second \<^verbatim>\<open>prepare\<close> after one that left a status makes no call and changes nothing,
  whatever the clock reads; and \<^verbatim>\<open>prepare\<close> leaves a status whenever it passes the guard
  on an Action that is skipped, has no parents, or has dependencies that evaluate to
  DEP_ERROR or DONE.
\<close>

theorem prepare_guarded_noop:
  "(status a \<noteq> NO_STATUS \<or> eval_deps_status a = WAITING_STATUS \<longrightarrow>
      prepare now a = Inr ([], a)) \<and>
   (\<forall>es a'. prepare now a = Inr (es, a') \<and> status a' \<noteq> NO_STATUS \<longrightarrow>
      prepare now' a' = Inr ([], a')) \<and>
   (status a = NO_STATUS \<and> eval_deps_status a \<noteq> WAITING_STATUS \<and>
    (skipped a \<or> eval_deps_status a = DEP_ERROR \<or> parents a = [] \<or> eval_deps_status a = DONE)
    \<longrightarrow> (\<exists>es a'. prepare now a = Inr (es, a') \<and> status a' \<noteq> NO_STATUS \<and>
           prepare now' a' = Inr ([], a')))"
proof -
  have guard: "prepare u b = Inr ([], b)"
    if "status b \<noteq> NO_STATUS \<or> eval_deps_status b = WAITING_STATUS" for u b
    using that by (cases "status b = NO_STATUS") (simp_all add: prepare_def Let_def)
  have sets: "\<exists>es a'. prepare now a = Inr (es, a') \<and> status a' \<noteq> NO_STATUS"
    if h: "status a = NO_STATUS \<and> eval_deps_status a \<noteq> WAITING_STATUS \<and>
      (skipped a \<or> eval_deps_status a = DEP_ERROR \<or> parents a = [] \<or> eval_deps_status a = DONE)"
  proof -
    consider (s) "skipped a" | (w) "\<not> skipped a" "eval_deps_status a = DEP_ERROR \<or> parents a = []"
      | (d) "\<not> skipped a" "parents a \<noteq> []" "eval_deps_status a = DONE"
      using h by blast
    then show ?thesis
    proof cases
      case s
      with h update_status_accepted [of SKIPPED a] show ?thesis
        by (auto simp: prepare_skipped)
    next
      case w
      with h show ?thesis by (simp add: prepare_schedule)
    next
      case d
      with h update_status_accepted [of DONE a] show ?thesis
        by (auto simp: prepare_done)
    qed
  qed
  show ?thesis
    using guard sets by blast
qed

theorem prepare_guarded_noop_witness:
  "prepare 7 (demo_action\<lparr>status := DONE\<rparr>) = Inr ([], demo_action\<lparr>status := DONE\<rparr>) \<and>
   prepare 7 (demo_action\<lparr>parents := [demo_parent REQUIRE WAITING_STATUS]\<rparr>) =
     Inr ([], demo_action\<lparr>parents := [demo_parent REQUIRE WAITING_STATUS]\<rparr>) \<and>
   (\<exists>es a'. prepare 7 demo_action = Inr (es, a') \<and> status a' \<noteq> NO_STATUS \<and>
      prepare 9 a' = Inr ([], a'))"
  using prepare_guarded_noop [of "demo_action\<lparr>status := DONE\<rparr>" 7]
    prepare_guarded_noop [of "demo_action\<lparr>parents := [demo_parent REQUIRE WAITING_STATUS]\<rparr>" 7]
    prepare_guarded_noop [of demo_action 7 9]
  by (simp add: demo_action_def init_Action_def demo_parent_def eval_deps_status_def skipped_def)

text \<open>
  Claim C7, as amended. On an Action with the status NO_STATUS that is not skipped and
  whose dependencies do not evaluate to WAITING_STATUS: if they evaluate to DEP_ERROR,
  or if the Action has no parents, \<^verbatim>\<open>prepare\<close> sets WAITING_STATUS, notifies the change
  and schedules the Action (delayed when its delay is positive); otherwise, if they
  evaluate to DONE, it is \<^verbatim>\<open>update_status(DONE)\<close> and hands nothing to the action
  manager; otherwise it leaves the Action as it is and calls \<^verbatim>\<open>prepare()\<close> of each parent
  whose status is NO_STATUS.
\<close>

theorem prepare_branches:
  assumes "status a = NO_STATUS" and "eval_deps_status a \<noteq> WAITING_STATUS" and "\<not> skipped a"
  shows "(eval_deps_status a = DEP_ERROR \<or> parents a = [] \<longrightarrow>
            prepare now a =
              Inr ([Notify (Entity (name a)) EV_STATUS_CHANGED,
                    if 0 < delay a then Perform_delayed_action (name a)
                    else Perform_action (name a)],
                   a\<lparr>status := WAITING_STATUS,
                     start_time := (case start_time a of None \<Rightarrow> Some now | Some t \<Rightarrow> Some t)\<rparr>)) \<and>
         (eval_deps_status a = DONE \<and> parents a \<noteq> [] \<longrightarrow>
            (\<exists>es. prepare now a = Inr (es, a\<lparr>status := DONE\<rparr>) \<and>
                  update_status DONE a = Inr (es, a\<lparr>status := DONE\<rparr>) \<and>
                  (\<forall>n. Perform_action n \<notin> set es \<and> Perform_delayed_action n \<notin> set es))) \<and>
         (eval_deps_status a \<noteq> DEP_ERROR \<and> eval_deps_status a \<noteq> DONE \<and> parents a \<noteq> [] \<longrightarrow>
            prepare now a =
              Inr (map (\<lambda>dep. Prepare_call (rname (target dep)))
                     (filter (\<lambda>dep. rstatus (target dep) = NO_STATUS) (parents a)), a))"
proof (intro conjI impI)
  assume "eval_deps_status a = DEP_ERROR \<or> parents a = []"
  then show "prepare now a =
              Inr ([Notify (Entity (name a)) EV_STATUS_CHANGED,
                    if 0 < delay a then Perform_delayed_action (name a)
                    else Perform_action (name a)],
                   a\<lparr>status := WAITING_STATUS,
                     start_time := (case start_time a of None \<Rightarrow> Some now | Some t \<Rightarrow> Some t)\<rparr>)"
    using assms by (simp add: prepare_schedule)
next
  assume c: "eval_deps_status a = DONE \<and> parents a \<noteq> []"
  obtain es where es: "update_status DONE a = Inr (es, a\<lparr>status := DONE\<rparr>)"
    using update_status_accepted [of DONE a] by auto
  have "prepare now a = update_status DONE a"
    using assms c by (simp add: prepare_done)
  with es update_status_no_perform [OF es]
  show "\<exists>es. prepare now a = Inr (es, a\<lparr>status := DONE\<rparr>) \<and>
                  update_status DONE a = Inr (es, a\<lparr>status := DONE\<rparr>) \<and>
                  (\<forall>n. Perform_action n \<notin> set es \<and> Perform_delayed_action n \<notin> set es)"
    by auto
next
  assume "eval_deps_status a \<noteq> DEP_ERROR \<and> eval_deps_status a \<noteq> DONE \<and> parents a \<noteq> []"
  then show "prepare now a =
              Inr (map (\<lambda>dep. Prepare_call (rname (target dep)))
                     (filter (\<lambda>dep. rstatus (target dep) = NO_STATUS) (parents a)), a)"
    using assms by (simp add: prepare_def Let_def search_deps_def)
qed


theorem prepare_branches_witness:
  "prepare 7 (demo_action\<lparr>parents := [demo_parent REQUIRE ERROR]\<rparr>) =
     Inr ([Notify (Entity ''start'') EV_STATUS_CHANGED, Perform_delayed_action ''start''],
          demo_action\<lparr>parents := [demo_parent REQUIRE ERROR], status := WAITING_STATUS,
            start_time := Some 7\<rparr>) \<and>
   prepare 7 (demo_action\<lparr>parents := [demo_parent REQUIRE DONE]\<rparr>) =
     Inr ([Notify (Entity ''start'') EV_STATUS_CHANGED, Notify (Entity ''start'') EV_COMPLETE,
           Parent_update_status DONE],
          demo_action\<lparr>parents := [demo_parent REQUIRE DONE], status := DONE\<rparr>) \<and>
   prepare 7 (demo_action\<lparr>parents := [demo_parent REQUIRE NO_STATUS, demo_parent CHECK DONE]\<rparr>) =
     Inr ([Prepare_call ''p''],
          demo_action\<lparr>parents := [demo_parent REQUIRE NO_STATUS, demo_parent CHECK DONE]\<rparr>)"
  using prepare_branches [of "demo_action\<lparr>parents := [demo_parent REQUIRE ERROR]\<rparr>" 7]
    prepare_branches [of "demo_action\<lparr>parents := [demo_parent REQUIRE DONE]\<rparr>" 7]
    prepare_branches [of
      "demo_action\<lparr>parents := [demo_parent REQUIRE NO_STATUS, demo_parent CHECK DONE]\<rparr>" 7]
  by (simp add: demo_action_def demo_service_def init_Action_def demo_parent_def
      eval_deps_status_def skipped_def update_status_def)

text \<open>
  The claim as stated fails on an Action without parents: its dependencies evaluate to
  DONE, and \<^verbatim>\<open>prepare\<close> does not set DONE but WAITING_STATUS, and schedules the Action.
\<close>

theorem prepare_no_parents_counterexample:
  "status demo_action = NO_STATUS \<and> \<not> skipped demo_action \<and>
   eval_deps_status demo_action = DONE \<and>
   prepare 7 demo_action =
     Inr ([Notify (Entity ''start'') EV_STATUS_CHANGED, Perform_delayed_action ''start''],
          demo_action\<lparr>status := WAITING_STATUS, start_time := Some 7\<rparr>) \<and>
   prepare 7 (demo_action\<lparr>delay := 0\<rparr>) =
     Inr ([Notify (Entity ''start'') EV_STATUS_CHANGED, Perform_action ''start''],
          demo_action\<lparr>delay := 0, status := WAITING_STATUS, start_time := Some 7\<rparr>)"
  by (simp add: demo_action_def init_Action_def eval_deps_status_def skipped_def prepare_def
      update_status_def schedule_def)

text \<open>
  Claim C8, as amended. \<^verbatim>\<open>schedule\<close> stores the clock reading as start time when none
  is stored, and makes one call: \<^verbatim>\<open>perform_delayed_action\<close> when the delay is positive
  and a delay is allowed, \<^verbatim>\<open>perform_action\<close> in every other case. When the timer fires
  and the parent service does not simulate, \<^verbatim>\<open>ev_timer\<close> is \<^verbatim>\<open>schedule\<close> without delay:
  the Action is handed to the manager for execution. When the parent service simulates,
  \<^verbatim>\<open>ev_timer\<close> schedules nothing: it hands the status of the dependencies of the parent
  service to \<^verbatim>\<open>update_status\<close> of that service.
\<close>

theorem schedule_and_timer:
  "schedule allow_delay now a =
     ([if 0 < delay a \<and> allow_delay then Perform_delayed_action (name a)
       else Perform_action (name a)],
      a\<lparr>start_time := (case start_time a of None \<Rightarrow> Some now | Some t \<Rightarrow> Some t)\<rparr>) \<and>
   (\<not> simulate (parent a) \<longrightarrow>
      ev_timer now' a = schedule False now' a \<and>
      fst (ev_timer now' a) = [Perform_action (name a)] \<and>
      deliver (Timer_fired now') (Timer_armed, a) = Inr (Dispatched, snd (schedule False now' a))) \<and>
   (simulate (parent a) \<longrightarrow>
      ev_timer now' a = ([Parent_update_status (eval_deps_status (parent a))], a) \<and>
      deliver (Timer_fired now') (Timer_armed, a) = Inr (Idle, a))"
  by (simp add: schedule_eq ev_timer_def)

theorem schedule_and_timer_witness:
  "schedule True 3 demo_action =
     ([Perform_delayed_action ''start''], demo_action\<lparr>start_time := Some 3\<rparr>) \<and>
   ev_timer 4 (demo_action\<lparr>start_time := Some 3\<rparr>) =
     ([Perform_action ''start''], demo_action\<lparr>start_time := Some 3\<rparr>) \<and>
   ev_timer 4 (ghost_action\<lparr>start_time := Some 3\<rparr>) =
     ([Parent_update_status DONE], ghost_action\<lparr>start_time := Some 3\<rparr>)"
  using schedule_and_timer [of True 3 demo_action]
    schedule_and_timer [of False 4 "demo_action\<lparr>start_time := Some 3\<rparr>" 4]
    schedule_and_timer [of False 4 "ghost_action\<lparr>start_time := Some 3\<rparr>" 4]
  by (simp add: demo_action_def ghost_action_def ghost_service_def demo_service_def
      init_Action_def eval_deps_status_def)

text \<open>
  The claim as stated fails in simulate mode: the Action is queued as a delayed action,
  and the fire of its timer does not go through \<^verbatim>\<open>schedule\<close>.
\<close>

theorem timer_simulate_counterexample:
  "0 < delay ghost_action \<and>
   schedule True 3 ghost_action =
     ([Perform_delayed_action ''start''], ghost_action\<lparr>start_time := Some 3\<rparr>) \<and>
   ev_timer 4 (ghost_action\<lparr>start_time := Some 3\<rparr>) =
     ([Parent_update_status DONE], ghost_action\<lparr>start_time := Some 3\<rparr>) \<and>
   schedule False 4 (ghost_action\<lparr>start_time := Some 3\<rparr>) =
     ([Perform_action ''start''], ghost_action\<lparr>start_time := Some 3\<rparr>) \<and>
   ev_timer 4 (ghost_action\<lparr>start_time := Some 3\<rparr>) \<noteq>
     schedule False 4 (ghost_action\<lparr>start_time := Some 3\<rparr>)"
  by (simp add: ghost_action_def ghost_service_def demo_service_def init_Action_def
      eval_deps_status_def schedule_def ev_timer_def)

subsection \<open>Start time and stop time\<close>

lemma set_retry_ok:
  "0 < delay a \<Longrightarrow> 0 \<le> r \<Longrightarrow>
   set_retry r a =
     Inr (a\<lparr>priv_retry := r,
           priv_retry_backup := (if priv_retry_backup a = - 1 then r else priv_retry_backup a)\<rparr>)"
  by (simp add: set_retry_def Let_def)

lemma ev_close_retry:
  assumes "(nb_errors (a\<lparr>worker := Some w\<rparr>) \<noteq> 0 \<or> nb_timeout (a\<lparr>worker := Some w\<rparr>) \<noteq> 0) \<and>
      0 < get_retry a"
    and "0 < delay a"
  shows "ev_close w t t' a =
     Inr ([Remove_task (name a), Perform_delayed_action (name a)],
          a\<lparr>stop_time := Some t, worker := Some w, priv_retry := get_retry a - 1,
            priv_retry_backup :=
              (if priv_retry_backup a = - 1 then get_retry a - 1 else priv_retry_backup a),
            start_time := (case start_time a of None \<Rightarrow> Some t' | Some s \<Rightarrow> Some s)\<rparr>)"
proof -
  let ?a2 = "a\<lparr>stop_time := Some t, worker := Some w\<rparr>"
  have r: "0 \<le> get_retry ?a2 - 1" and d: "0 < delay ?a2"
    using assms by (simp_all add: get_retry_def)
  show ?thesis
    using assms set_retry_ok [OF d r]
    by (simp add: ev_close_def Let_def nb_errors_frame nb_timeout_frame schedule_eq get_retry_def)
qed

lemma ev_close_settle:
  assumes "\<not> ((nb_errors (a\<lparr>worker := Some w\<rparr>) \<noteq> 0 \<or> nb_timeout (a\<lparr>worker := Some w\<rparr>) \<noteq> 0) \<and>
      0 < get_retry a)"
  shows "\<exists>es st. ev_close w t t' a =
     Inr (Remove_task (name a) # es, a\<lparr>stop_time := Some t, worker := Some w, status := st\<rparr>)"
proof -
  let ?a2 = "a\<lparr>stop_time := Some t, worker := Some w\<rparr>"
  have u: "\<exists>es. update_status st ?a2 = Inr (es, ?a2\<lparr>status := st\<rparr>)"
    if "st \<in> {DONE, ERROR, TIMEOUT}" for st
    using that update_status_accepted [of st ?a2] by auto
  from u [of TIMEOUT] obtain e1 where e1: "update_status TIMEOUT ?a2 = Inr (e1, ?a2\<lparr>status := TIMEOUT\<rparr>)"
    by auto
  from u [of ERROR] obtain e2 where e2: "update_status ERROR ?a2 = Inr (e2, ?a2\<lparr>status := ERROR\<rparr>)"
    by auto
  from u [of DONE] obtain e3 where e3: "update_status DONE ?a2 = Inr (e3, ?a2\<lparr>status := DONE\<rparr>)"
    by auto
  show ?thesis
  proof (cases "0 < get_retry a")
    case True
    with assms have "nb_errors (a\<lparr>worker := Some w\<rparr>) = 0" "nb_timeout (a\<lparr>worker := Some w\<rparr>) = 0"
      by simp_all
    then show ?thesis
      using e1 e2 e3
      by (simp add: ev_close_def Let_def nb_errors_frame nb_timeout_frame) blast
  next
    case False
    then show ?thesis
      using e1 e2 e3
      by (simp add: ev_close_def Let_def nb_errors_frame nb_timeout_frame get_retry_def) blast
  qed
qed

lemma ev_close_fields:
  assumes "ev_close w t t' a = Inr (es, a')"
  shows "stop_time a' = Some t \<and> delay a' = delay a \<and>
    (\<forall>s. start_time a = Some s \<longrightarrow> start_time a' = Some s) \<and>
    ((0 < get_retry a \<longrightarrow> 0 < delay a) \<longrightarrow> (0 < get_retry a' \<longrightarrow> 0 < delay a'))"
proof -
  let ?c = "(nb_errors (a\<lparr>worker := Some w\<rparr>) \<noteq> 0 \<or> nb_timeout (a\<lparr>worker := Some w\<rparr>) \<noteq> 0) \<and>
      0 < get_retry a"
  show ?thesis
  proof (cases ?c)
    case True
    show ?thesis
    proof (cases "0 < delay a")
      case d: True
      from ev_close_retry [OF True d, of t t'] assms
      have "a' = a\<lparr>stop_time := Some t, worker := Some w, priv_retry := get_retry a - 1,
            priv_retry_backup :=
              (if priv_retry_backup a = - 1 then get_retry a - 1 else priv_retry_backup a),
            start_time := (case start_time a of None \<Rightarrow> Some t' | Some s \<Rightarrow> Some s)\<rparr>"
        by simp
      then show ?thesis using d by (simp add: get_retry_def split: option.split)
    next
      case False
      with True assms show ?thesis
        by (simp add: ev_close_def Let_def nb_errors_frame nb_timeout_frame get_retry_def
            set_retry_def)
    qed
  next
    case False
    from ev_close_settle [OF False, of t t'] assms
    obtain st where "a' = a\<lparr>stop_time := Some t, worker := Some w, status := st\<rparr>"
      by auto
    then show ?thesis by (simp add: get_retry_def split: option.split)
  qed
qed

lemma ev_close_returns:
  assumes "0 < get_retry a \<longrightarrow> 0 < delay a"
  shows "\<exists>es a'. ev_close w t t' a = Inr (es, a')"
proof (cases "(nb_errors (a\<lparr>worker := Some w\<rparr>) \<noteq> 0 \<or> nb_timeout (a\<lparr>worker := Some w\<rparr>) \<noteq> 0) \<and>
      0 < get_retry a")
  case True
  with assms have "0 < delay a" by simp
  from ev_close_retry [OF True this] show ?thesis by simp
next
  case False
  from ev_close_settle [OF False] show ?thesis by blast
qed

lemma deliver_started:
  assumes "started t0 a" and "\<forall>t \<in> set (readings c). t0 \<le> t"
  shows "\<exists>p' a'. deliver c (p, a) = Inr (p', a') \<and> started t0 a'"
proof (cases c)
  case (Timer_fired t)
  show ?thesis
  proof (cases "p = Timer_armed")
    case True
    with assms Timer_fired show ?thesis
      by (simp add: ev_timer_def schedule_eq started_def get_retry_def)
  next
    case False
    with assms Timer_fired show ?thesis by (cases p) simp_all
  qed
next
  case (Worker_closed w t t')
  show ?thesis
  proof (cases "p = Dispatched")
    case True
    from assms have inv: "0 < get_retry a \<longrightarrow> 0 < delay a" by (simp add: started_def)
    from ev_close_returns [OF inv, of w t t'] obtain es a' where
      r: "ev_close w t t' a = Inr (es, a')" by blast
    from ev_close_fields [OF r] assms(1)
    have f: "stop_time a' = Some t" "start_time a' = Some t0" "0 < get_retry a' \<longrightarrow> 0 < delay a'"
      by (auto simp: started_def)
    from assms(2) Worker_closed have "t0 \<le> t" by simp
    with f have "started t0 a'"
      by (simp add: started_def)
    with r True Worker_closed show ?thesis by simp
  next
    case False
    with assms Worker_closed show ?thesis by (cases p) simp_all
  qed
qed

lemma run_loop_started:
  "started t0 a \<Longrightarrow> \<forall>t \<in> set (concat (map readings cs)). t0 \<le> t \<Longrightarrow>
   \<exists>p' a'. run_loop cs (p, a) = Inr (p', a') \<and> started t0 a'"
proof (induction cs arbitrary: p a)
  case Nil
  then show ?case by simp
next
  case (Cons c cs)
  from Cons.prems have "\<forall>t \<in> set (readings c). t0 \<le> t" by simp
  from deliver_started [OF Cons.prems(1) this, of p] obtain p1 a1 where
    d: "deliver c (p, a) = Inr (p1, a1)" and s: "started t0 a1" by blast
  from Cons.prems have "\<forall>t \<in> set (concat (map readings cs)). t0 \<le> t" by simp
  from Cons.IH [OF s this, of p1] d show ?case by simp
qed

text \<open>
  Claim C4. \<^verbatim>\<open>schedule\<close> stores the clock reading as start time only when none is
  stored; neither \<^verbatim>\<open>ev_timer\<close> nor \<^verbatim>\<open>ev_close\<close> (retry included) changes a start time
  that is stored, and every \<^verbatim>\<open>ev_close\<close> that returns has stored its clock reading as
  stop time. So in a run of an Action that starts without start and stop time and keeps
  the invariant of the data model (a positive retry needs a positive delay), with a
  clock that never reads less than at the first \<^verbatim>\<open>schedule()\<close>: whatever callbacks the
  event loop delivers, no assertion fails, the start time stays the first reading, and a
  stop time is never before it.
\<close>

theorem start_time_kept:
  "start_time (snd (schedule allow_delay t a)) =
     (case start_time a of None \<Rightarrow> Some t | Some s \<Rightarrow> Some s) \<and>
   (\<forall>s. start_time a = Some s \<longrightarrow> start_time (snd (ev_timer t a)) = Some s) \<and>
   (\<forall>es a'. ev_close w t t' a = Inr (es, a') \<longrightarrow>
      stop_time a' = Some t \<and> (\<forall>s. start_time a = Some s \<longrightarrow> start_time a' = Some s)) \<and>
   (start_time a = None \<and> stop_time a = None \<and> (0 < get_retry a \<longrightarrow> 0 < delay a) \<and>
    (\<forall>u \<in> set (concat (map readings cs)). t0 \<le> u) \<longrightarrow>
      (\<exists>p a'. run_action t0 cs a = Inr (p, a') \<and> start_time a' = Some t0 \<and>
         (\<forall>u. stop_time a' = Some u \<longrightarrow> t0 \<le> u)))"
proof (intro conjI allI impI)
  show "start_time (snd (schedule allow_delay t a)) =
     (case start_time a of None \<Rightarrow> Some t | Some s \<Rightarrow> Some s)"
    by (simp add: schedule_eq)
next
  fix s assume "start_time a = Some s"
  then show "start_time (snd (ev_timer t a)) = Some s"
    by (simp add: ev_timer_def schedule_eq)
next
  fix es a' assume r: "ev_close w t t' a = Inr (es, a')"
  from ev_close_fields [OF r] show "stop_time a' = Some t" by simp
  fix s assume "start_time a = Some s"
  with ev_close_fields [OF r] show "start_time a' = Some s" by simp
next
  assume h: "start_time a = None \<and> stop_time a = None \<and> (0 < get_retry a \<longrightarrow> 0 < delay a) \<and>
    (\<forall>u \<in> set (concat (map readings cs)). t0 \<le> u)"
  then have "started t0 (snd (schedule True t0 a))"
    by (simp add: schedule_eq started_def get_retry_def)
  from run_loop_started [OF this, of cs "manager (fst (schedule True t0 a)) Idle"] h
  obtain p a' where "run_loop cs (manager (fst (schedule True t0 a)) Idle, snd (schedule True t0 a)) =
      Inr (p, a')" and "started t0 a'" by blast
  then show "\<exists>p a'. run_action t0 cs a = Inr (p, a') \<and> start_time a' = Some t0 \<and>
         (\<forall>u. stop_time a' = Some u \<longrightarrow> t0 \<le> u)"
    by (auto simp: run_action_def started_def split: prod.split)
qed


theorem start_time_kept_witness:
  "run_action 0 demo_run (demo_action\<lparr>priv_retry := 2, priv_retry_backup := 2\<rparr>) =
     Inr (Idle, demo_action\<lparr>priv_retry := 0, priv_retry_backup := 2,
            status := ERROR, worker := Some (WorkerPopen (Some 1) False),
            start_time := Some 0, stop_time := Some 6\<rparr>) \<and>
   (\<exists>p a'. run_action 0 demo_run (demo_action\<lparr>priv_retry := 2, priv_retry_backup := 2\<rparr>) =
        Inr (p, a') \<and> start_time a' = Some 0 \<and> stop_time a' = Some 6)"
  using start_time_kept [where a = "demo_action\<lparr>priv_retry := 2, priv_retry_backup := 2\<rparr>"
      and cs = demo_run and ?t0.0 = 0]
  by (simp add: demo_run_def demo_action_def demo_service_def init_Action_def run_action_def
      schedule_def ev_timer_def ev_close_def set_retry_def get_retry_def nb_errors_def
      nb_timeout_def update_status_def Let_def)

subsection \<open>Reset and the backup of the retry\<close>

lemma set_retry_backup:
  "set_retry r a = Inr a' \<Longrightarrow>
   priv_retry a' = r \<and> 0 \<le> r \<and>
   priv_retry_backup a' = (if priv_retry_backup a = - 1 then r else priv_retry_backup a)"
  by (auto simp: set_retry_def Let_def split: if_splits)

lemma ev_close_shape:
  assumes "ev_close w t t' a = Inr (es, a')"
  shows "(\<exists>st. a' = a\<lparr>stop_time := Some t, worker := Some w, status := st\<rparr>) \<or>
         (0 < priv_retry a \<and>
          a' = a\<lparr>stop_time := Some t, worker := Some w, priv_retry := priv_retry a - 1,
                 priv_retry_backup :=
                   (if priv_retry_backup a = - 1 then priv_retry a - 1 else priv_retry_backup a),
                 start_time := (case start_time a of None \<Rightarrow> Some t' | Some s \<Rightarrow> Some s)\<rparr>)"
proof (cases "(nb_errors (a\<lparr>worker := Some w\<rparr>) \<noteq> 0 \<or> nb_timeout (a\<lparr>worker := Some w\<rparr>) \<noteq> 0) \<and>
      0 < get_retry a")
  case True
  show ?thesis
  proof (cases "0 < delay a")
    case d: True
    from ev_close_retry [OF True d, of t t'] assms True show ?thesis
      by (simp add: get_retry_def)
  next
    case False
    with True assms show ?thesis
      by (simp add: ev_close_def Let_def nb_errors_frame nb_timeout_frame get_retry_def
          set_retry_def)
  qed
next
  case False
  from ev_close_settle [OF False, of t t'] assms show ?thesis by auto
qed

lemma apply_call_frozen:
  assumes "priv_retry_backup a \<noteq> - 1"
  shows "priv_retry_backup (apply_call c a) = priv_retry_backup a"
proof (cases c)
  case (Assign_retry r)
  show ?thesis
  proof (cases "set_retry r a")
    case (Inl e)
    with Assign_retry show ?thesis by simp
  next
    case (Inr a')
    from set_retry_backup [OF Inr] assms Assign_retry Inr show ?thesis by simp
  qed
next
  case (Assign_delay d)
  then show ?thesis by simp
next
  case Reset
  then show ?thesis by (simp add: reset_def BaseEntity_reset_def Let_def)
next
  case (Close w t t')
  show ?thesis
  proof (cases "ev_close w t t' a")
    case (Inl e)
    with Close show ?thesis by simp
  next
    case (Inr r)
    obtain es a' where r: "r = (es, a')" by (cases r)
    from ev_close_shape [of w t t' a es a'] Inr r assms
    have "priv_retry_backup a' = priv_retry_backup a" by auto
    with Close Inr r show ?thesis by simp
  qed
next
  case (Schedule b t)
  then show ?thesis by (simp add: schedule_eq)
qed

lemma run_calls_frozen:
  "priv_retry_backup a \<noteq> - 1 \<Longrightarrow> priv_retry_backup (run_calls cs a) = priv_retry_backup a"
proof (induction cs arbitrary: a)
  case Nil
  show ?case by simp
next
  case (Cons c cs)
  from apply_call_frozen [OF Cons.prems, of c] Cons.prems
  have "priv_retry_backup (apply_call c a) \<noteq> - 1" by simp
  from Cons.IH [OF this] apply_call_frozen [OF Cons.prems, of c] show ?case by simp
qed

lemma apply_call_unassigned:
  assumes "unassigned a" and "\<forall>r. c \<noteq> Assign_retry r"
  shows "unassigned (apply_call c a)"
proof (cases c)
  case (Assign_retry r)
  with assms show ?thesis by simp
next
  case (Assign_delay d)
  with assms show ?thesis by (simp add: unassigned_def)
next
  case Reset
  with assms show ?thesis by (simp add: unassigned_def reset_def BaseEntity_reset_def Let_def)
next
  case (Close w t t')
  show ?thesis
  proof (cases "ev_close w t t' a")
    case (Inl e)
    with Close assms show ?thesis by (simp add: unassigned_def)
  next
    case (Inr r)
    obtain es a' where r: "r = (es, a')" by (cases r)
    from ev_close_shape [of w t t' a es a'] Inr r assms
    have "unassigned a'" by (auto simp: unassigned_def)
    with Close Inr r show ?thesis by simp
  qed
next
  case (Schedule b t)
  with assms show ?thesis by (simp add: schedule_eq unassigned_def)
qed

lemma backup_first_assigned:
  "unassigned a \<Longrightarrow>
   priv_retry_backup (run_calls cs a) = (case first_assigned cs a of None \<Rightarrow> - 1 | Some r \<Rightarrow> r)"
proof (induction cs arbitrary: a)
  case Nil
  then show ?case by (simp add: unassigned_def)
next
  case (Cons c cs)
  show ?case
  proof (cases "\<exists>r. c = Assign_retry r")
    case True
    then obtain r where c: "c = Assign_retry r" by blast
    show ?thesis
    proof (cases "set_retry r a")
      case (Inl e)
      with c Cons.IH [OF Cons.prems] show ?thesis by simp
    next
      case (Inr a')
      from set_retry_backup [OF Inr] Cons.prems
      have b: "priv_retry_backup a' = r" and "0 \<le> r" by (simp_all add: unassigned_def)
      then have "priv_retry_backup a' \<noteq> - 1" by simp
      from run_calls_frozen [OF this, of cs] b c Inr show ?thesis by simp
    qed
  next
    case False
    then have nc: "\<forall>r. c \<noteq> Assign_retry r" by blast
    from apply_call_unassigned [OF Cons.prems nc]
    have u: "unassigned (apply_call c a)" .
    have "first_assigned (c # cs) a = first_assigned cs (apply_call c a)"
      using nc by (cases c) simp_all
    with Cons.IH [OF u] show ?thesis by simp
  qed
qed

lemma unassigned_init: "unassigned (init_Action svc nm tgt cmd tmo dly)"
  by (simp add: unassigned_def init_Action_def)

text \<open>
  Claim C9, as amended. After \<^verbatim>\<open>reset\<close> the status is NO_STATUS, the start time, the
  stop time and the worker are cleared, and the retry is the backup, which \<^verbatim>\<open>reset\<close>
  keeps. For an Action that went from its construction through any history of
  assignments of the retry and of the delay, resets, calls of \<^verbatim>\<open>schedule\<close> and ends of
  workers: if an assignment of the retry succeeded in that history, the retry after
  \<^verbatim>\<open>reset\<close> is the value of the first one that did.
\<close>

theorem reset_restores_backup:
  "status (reset a) = NO_STATUS \<and> start_time (reset a) = None \<and> stop_time (reset a) = None \<and>
   worker (reset a) = None \<and> get_retry (reset a) = priv_retry_backup a \<and>
   priv_retry_backup (reset a) = priv_retry_backup a \<and>
   (\<forall>r. first_assigned cs (init_Action svc nm tgt cmd tmo dly) = Some r \<longrightarrow>
      get_retry (reset (run_calls cs (init_Action svc nm tgt cmd tmo dly))) = r)"
proof -
  have r: "get_retry (reset b) = priv_retry_backup b" for b
    by (simp add: reset_def BaseEntity_reset_def Let_def get_retry_def)
  have "status (reset a) = NO_STATUS \<and> start_time (reset a) = None \<and> stop_time (reset a) = None \<and>
   worker (reset a) = None \<and> priv_retry_backup (reset a) = priv_retry_backup a"
    by (simp add: reset_def BaseEntity_reset_def Let_def)
  moreover have "\<forall>r. first_assigned cs (init_Action svc nm tgt cmd tmo dly) = Some r \<longrightarrow>
      get_retry (reset (run_calls cs (init_Action svc nm tgt cmd tmo dly))) = r"
    using backup_first_assigned [OF unassigned_init, of cs svc nm tgt cmd tmo dly]
    by (simp add: r)
  ultimately show ?thesis using r [of a] by simp
qed

theorem reset_restores_backup_witness:
  "first_assigned demo_calls (init_Action demo_service ''start'' None None (- 1) 3) = Some 5 \<and>
   get_retry (run_calls demo_calls (init_Action demo_service ''start'' None None (- 1) 3)) = 2 \<and>
   get_retry (reset (run_calls demo_calls (init_Action demo_service ''start'' None None (- 1) 3))) = 5"
  using reset_restores_backup [where cs = demo_calls and svc = demo_service and nm = "''start''"
      and tgt = None and cmd = None and tmo = "- 1" and dly = 3]
  by (simp add: demo_calls_def init_Action_def set_retry_def get_retry_def ev_close_def
      nb_errors_def nb_timeout_def schedule_def Let_def)

text \<open>
  The claim as stated, for any Action, fails on an Action to which no retry was ever
  assigned, be it that none was tried or that the only one failed its assertion: the
  retry is 0 before \<^verbatim>\<open>reset\<close> and -1 after it, a value that no assignment stored.
\<close>

theorem reset_never_assigned_counterexample:
  "first_assigned [] demo_action = None \<and>
   get_retry demo_action = 0 \<and>
   get_retry (reset demo_action) = - 1 \<and>
   first_assigned [Assign_retry 3] (init_Action demo_service ''start'' None None (- 1) 0) = None \<and>
   get_retry (reset (run_calls [Assign_retry 3]
     (init_Action demo_service ''start'' None None (- 1) 0))) = - 1"
  by (simp add: demo_action_def init_Action_def get_retry_def reset_def BaseEntity_reset_def
      set_retry_def Let_def)

end
